theory Spec2Isabelle
  imports Main
begin

section \<open>Python string primitives\<close>

text \<open>
  Text is a list of characters. The character predicates below are those of Python for
  code points below 256: \<open>str.isspace\<close> (which is also the class \<open>\s\<close> of the
  \<open>re\<close> module on \<open>str\<close> patterns) holds of the code points 9 to 13, 28 to 32, 133 and
  160; the class \<open>\d\<close> holds of the ten ASCII digits.
\<close>

definition NL :: char where
  "NL = CHR 0x0A"

definition isspace :: "char \<Rightarrow> bool" where
  "isspace c = (let n = (of_char c :: nat) in
     (9 \<le> n \<and> n \<le> 13) \<or> (28 \<le> n \<and> n \<le> 32) \<or> n = 133 \<or> n = 160)"

definition isdigit :: "char \<Rightarrow> bool" where
  "isdigit c = (let n = (of_char c :: nat) in 48 \<le> n \<and> n \<le> 57)"

definition lstrip :: "string \<Rightarrow> string" where
  "lstrip s = dropWhile isspace s"

definition rstrip :: "string \<Rightarrow> string" where
  "rstrip s = rev (dropWhile isspace (rev s))"

definition strip :: "string \<Rightarrow> string" where
  "strip s = lstrip (rstrip s)"

text \<open>\<open>s.strip(chars)\<close> for a one-character argument.\<close>

definition strip_char :: "char \<Rightarrow> string \<Rightarrow> string" where
  "strip_char c s = dropWhile (\<lambda>x. x = c) (rev (dropWhile (\<lambda>x. x = c) (rev s)))"

definition startswith :: "string \<Rightarrow> string \<Rightarrow> bool" where
  "startswith s p = (take (length p) s = p)"

definition endswith :: "string \<Rightarrow> string \<Rightarrow> bool" where
  "endswith s p = (length p \<le> length s \<and> drop (length s - length p) s = p)"

text \<open>\<open>s.split(c)\<close> for a one-character separator: never the empty list.\<close>

fun split :: "char \<Rightarrow> string \<Rightarrow> string list" where
  "split c [] = [[]]"
| "split c (x # xs) =
     (if x = c then [] # split c xs
      else (case split c xs of [] \<Rightarrow> [[x]] | l # ls \<Rightarrow> (x # l) # ls))"

text \<open>\<open>sep.join(xs)\<close>.\<close>

fun join :: "string \<Rightarrow> string list \<Rightarrow> string" where
  "join sep [] = []"
| "join sep [x] = x"
| "join sep (x # y # zs) = x @ sep @ join sep (y # zs)"

text \<open>\<open>s.split(c, 1)\<close>: at most one split, at the first separator.\<close>

definition split1 :: "char \<Rightarrow> string \<Rightarrow> string list" where
  "split1 c s =
     (if c \<in> set s then [takeWhile (\<lambda>x. x \<noteq> c) s, tl (dropWhile (\<lambda>x. x \<noteq> c) s)] else [s])"

text \<open>
  \<open>s.replace(old, new)\<close> for a non-empty \<open>old\<close>: the occurrences are found from the
  left and do not overlap.
\<close>

function replace :: "string \<Rightarrow> string \<Rightarrow> string \<Rightarrow> string" where
  "replace old new [] = []"
| "replace old new (x # xs) =
     (if old \<noteq> [] \<and> startswith (x # xs) old
      then new @ replace old new (drop (length old) (x # xs))
      else x # replace old new xs)"
  by pat_completeness auto
termination
  by (relation "measure (\<lambda>(old, new, s). length s)") auto

datatype error = IndexError | AttributeError

text \<open>\<open>xs[1]\<close>, which raises IndexError on a list shorter than two.\<close>

definition index1 :: "'a list \<Rightarrow> error + 'a" where
  "index1 xs = (case xs of _ # y # _ \<Rightarrow> Inr y | _ \<Rightarrow> Inl IndexError)"

text \<open>\<open>s[:n]\<close> for an integer \<open>n\<close>, which counts from the end when negative.\<close>

definition slice_to :: "string \<Rightarrow> int \<Rightarrow> string" where
  "slice_to s n = (if n < 0 then take (nat (int (length s) + n)) s else take (nat n) s)"

section \<open>The removal ledger\<close>

text \<open>
  \<open>sections\<close> is a Python dict, which keeps its keys in insertion order: an association
  list with one entry for each key.
\<close>

record StrippedContentLogger =
  enabled :: bool
  sections :: "(string \<times> string list) list"

fun dict_append :: "(string \<times> string list) list \<Rightarrow> string \<Rightarrow> string \<Rightarrow> (string \<times> string list) list" where
  "dict_append [] k v = [(k, [v])]"
| "dict_append ((k', vs) # d) k v =
     (if k' = k then (k', vs @ [v]) # d else (k', vs) # dict_append d k v)"

definition log :: "StrippedContentLogger \<Rightarrow> string \<Rightarrow> string \<Rightarrow> StrippedContentLogger" where
  "log logger step_name removed_content =
     (if \<not> enabled logger \<or> strip removed_content = [] then logger
      else logger\<lparr>sections := dict_append (sections logger) step_name removed_content\<rparr>)"

definition log_all :: "StrippedContentLogger \<Rightarrow> string \<Rightarrow> string list \<Rightarrow> StrippedContentLogger" where
  "log_all logger step_name xs = foldl (\<lambda>l x. log l step_name x) logger xs"

definition section_of :: "StrippedContentLogger \<Rightarrow> string \<Rightarrow> string list" where
  "section_of logger k = (case map_of (sections logger) k of None \<Rightarrow> [] | Some vs \<Rightarrow> vs)"

section \<open>Regular expressions of the \<open>re\<close> module\<close>

text \<open>
  The patterns of the program use literals, bracket classes, the dot, sequence, counted
  repetition (greedy or lazy), capturing groups, the anchors and one-character negative
  lookarounds. A pattern is matched by backtracking: the matcher returns every way to
  match from a state, in the order in which the backtracking engine tries them, so the
  match that \<open>re\<close> reports is the first of the list.
\<close>

datatype citem = C char | WS | DG

fun citem_ok :: "char \<Rightarrow> citem \<Rightarrow> bool" where
  "citem_ok x (C c) = (x = c)"
| "citem_ok x WS = isspace x"
| "citem_ok x DG = isdigit x"

datatype regex =
    Eps
  | Ch char
  | Cls "citem list"
  | NCls "citem list"
  | Dot
  | Seq regex regex
  | Rep regex nat "nat option" bool
  | Grp nat regex
  | Bol
  | Eol
  | NotBehind "citem list"
  | NotAhead "citem list"

text \<open>
  A matcher state: the text before the position, reversed (for \<open>^\<close> and the
  lookbehind), the text from the position on, and the groups captured so far.
\<close>

record mstate =
  behind :: string
  rest :: string
  groups :: "(nat \<times> string) list"

definition step1 :: "(char \<Rightarrow> bool) \<Rightarrow> mstate \<Rightarrow> mstate list" where
  "step1 ok st =
     (case rest st of
        [] \<Rightarrow> []
      | x # xs \<Rightarrow> if ok x then [st\<lparr>behind := x # behind st, rest := xs\<rparr>] else [])"

text \<open>
  Counted repetition of a body \<open>f\<close>, between \<open>lo\<close> and \<open>hi\<close> times (\<open>None\<close>: no
  upper bound). A greedy repetition tries one more round before it tries to stop, a lazy
  one the other way round. A round that consumes nothing ends the repetition; every
  repeated body of the program's patterns consumes at least one character.
\<close>

function rep :: "(mstate \<Rightarrow> mstate list) \<Rightarrow> nat \<Rightarrow> nat option \<Rightarrow> bool \<Rightarrow> mstate \<Rightarrow> mstate list" where
  "rep f lo hi greedy st =
     (let stop = (if lo = 0 then [st] else []);
          more = (if hi = Some 0 then []
                  else concat (map (rep f (lo - 1) (map_option (\<lambda>h. h - 1) hi) greedy)
                                 (filter (\<lambda>st'. length (rest st') < length (rest st)) (f st))))
      in if greedy then more @ stop else stop @ more)"
  by pat_completeness auto
termination
  by (relation "measure (\<lambda>(f, lo, hi, greedy, st). length (rest st))") auto

declare rep.simps [simp del]

fun ms :: "bool \<Rightarrow> regex \<Rightarrow> mstate \<Rightarrow> mstate list" where
  "ms ml Eps st = [st]"
| "ms ml (Ch c) st = step1 (\<lambda>x. x = c) st"
| "ms ml (Cls cs) st = step1 (\<lambda>x. \<exists>i \<in> set cs. citem_ok x i) st"
| "ms ml (NCls cs) st = step1 (\<lambda>x. \<not> (\<exists>i \<in> set cs. citem_ok x i)) st"
| "ms ml Dot st = step1 (\<lambda>x. x \<noteq> NL) st"
| "ms ml (Seq a b) st = concat (map (ms ml b) (ms ml a st))"
| "ms ml (Rep r lo hi greedy) st = rep (\<lambda>s. ms ml r s) lo hi greedy st"
| "ms ml (Grp k r) st =
     map (\<lambda>st'. st'\<lparr>groups := (k, take (length (rest st) - length (rest st')) (rest st)) # groups st'\<rparr>)
       (ms ml r st)"
| "ms ml Bol st =
     (if behind st = [] \<or> (ml \<and> hd (behind st) = NL) then [st] else [])"
| "ms ml Eol st =
     (if rest st = [] \<or> (if ml then hd (rest st) = NL else rest st = [NL]) then [st] else [])"
| "ms ml (NotBehind cs) st =
     (if behind st \<noteq> [] \<and> (\<exists>i \<in> set cs. citem_ok (hd (behind st)) i) then [] else [st])"
| "ms ml (NotAhead cs) st =
     (if rest st \<noteq> [] \<and> (\<exists>i \<in> set cs. citem_ok (hd (rest st)) i) then [] else [st])"

text \<open>A sequence of patterns, and a literal string.\<close>

definition seq :: "regex list \<Rightarrow> regex" where
  "seq rs = foldr Seq rs Eps"

definition lit :: "string \<Rightarrow> regex" where
  "lit s = foldr (\<lambda>c r. Seq (Ch c) r) s Eps"

text \<open>\<open>r*\<close>, \<open>r+\<close>, \<open>r{lo,hi}\<close> and the lazy \<open>r{lo,hi}?\<close>.\<close>

definition star :: "regex \<Rightarrow> regex" where
  "star r = Rep r 0 None True"

definition plus :: "regex \<Rightarrow> regex" where
  "plus r = Rep r 1 None True"

definition upto :: "regex \<Rightarrow> nat \<Rightarrow> nat \<Rightarrow> regex" where
  "upto r lo hi = Rep r lo (Some hi) True"

definition upto_lazy :: "regex \<Rightarrow> nat \<Rightarrow> nat \<Rightarrow> regex" where
  "upto_lazy r lo hi = Rep r lo (Some hi) False"

text \<open>A match object: the matched text and the groups.\<close>

record match =
  whole :: string
  captured :: "(nat \<times> string) list"

definition group :: "match \<Rightarrow> nat \<Rightarrow> string" where
  "group m k = (case map_of (captured m) k of None \<Rightarrow> [] | Some s \<Rightarrow> s)"

text \<open>
  The match at one position, if any: the first way to match. With \<open>must_advance\<close>
  (set after an empty match, as the engine does) an empty match is refused.
\<close>

definition match_at :: "bool \<Rightarrow> regex \<Rightarrow> string \<Rightarrow> string \<Rightarrow> bool \<Rightarrow> match option" where
  "match_at ml r bef s must_advance =
     (case filter (\<lambda>st'. \<not> must_advance \<or> length (rest st') < length s)
             (ms ml r \<lparr>behind = bef, rest = s, groups = []\<rparr>) of
        [] \<Rightarrow> None
      | st' # _ \<Rightarrow> Some \<lparr>whole = take (length s - length (rest st')) s, captured = groups st'\<rparr>)"

text \<open>
  The scan of \<open>re.finditer\<close>, \<open>re.findall\<close> and \<open>re.sub\<close>: the text as the sequence
  of its matches, leftmost first and not overlapping, and of the characters between them.
\<close>

datatype piece = Txt char | M match

lemma match_at_whole:
  assumes "match_at ml r bef s adv = Some m"
  shows "\<exists>n. whole m = take n s \<and> (adv \<longrightarrow> 0 < n \<and> n \<le> length s)"
proof -
  let ?xs = "filter (\<lambda>st'. \<not> adv \<or> length (rest st') < length s)
               (ms ml r \<lparr>behind = bef, rest = s, groups = []\<rparr>)"
  from assms obtain st' ys where xs: "?xs = st' # ys"
    and m: "m = \<lparr>whole = take (length s - length (rest st')) s, captured = groups st'\<rparr>"
    by (auto simp: match_at_def split: list.splits)
  have "st' \<in> set ?xs" using xs by simp
  then have "\<not> adv \<or> length (rest st') < length s" by simp
  with m show ?thesis by (intro exI [of _ "length s - length (rest st')"]) auto
qed

function scan :: "bool \<Rightarrow> regex \<Rightarrow> string \<Rightarrow> string \<Rightarrow> bool \<Rightarrow> piece list" where
  "scan ml r bef s must_advance =
     (case match_at ml r bef s must_advance of
        Some m \<Rightarrow>
          (if whole m = [] then M m # scan ml r bef s True
           else M m # scan ml r (rev (whole m) @ bef) (drop (length (whole m)) s) False)
      | None \<Rightarrow>
          (case s of
             [] \<Rightarrow> []
           | c # cs \<Rightarrow> Txt c # scan ml r (c # bef) cs False))"
  by pat_completeness auto
termination
proof (relation "measure (\<lambda>(ml, r, bef, s, adv). 2 * length s + (if adv then 0 else 1))", goal_cases)
  case 1
  show ?case by simp
next
  case (2 ml r bef s adv c cs)
  then show ?case by simp
next
  case (3 ml r bef s adv m)
  from match_at_whole [OF 3(1)] 3(2) show ?case by (cases adv) auto
next
  case (4 ml r bef s adv m)
  from match_at_whole [OF 4(1)] obtain n where n: "whole m = take n s" by blast
  with 4(2) have "0 < n" "s \<noteq> []" by auto
  with n show ?case by (cases s) (auto simp: min_def)
qed

declare scan.simps [simp del]

definition pieces :: "bool \<Rightarrow> regex \<Rightarrow> string \<Rightarrow> piece list" where
  "pieces ml r s = scan ml r [] s False"

text \<open>
  \<open>re.findall\<close> (as the list of the match objects; the caller takes the groups that
  Python returns), \<open>re.sub\<close> with the replacement as a function of the match,
  \<open>re.search\<close> and \<open>re.match\<close>. The first argument is the flag \<open>re.MULTILINE\<close>.
\<close>

definition re_findall :: "bool \<Rightarrow> regex \<Rightarrow> string \<Rightarrow> match list" where
  "re_findall ml r s = concat (map (\<lambda>p. case p of Txt c \<Rightarrow> [] | M m \<Rightarrow> [m]) (pieces ml r s))"

definition re_sub :: "bool \<Rightarrow> regex \<Rightarrow> (match \<Rightarrow> string) \<Rightarrow> string \<Rightarrow> string" where
  "re_sub ml r repl s = concat (map (\<lambda>p. case p of Txt c \<Rightarrow> [c] | M m \<Rightarrow> repl m) (pieces ml r s))"

definition re_search :: "bool \<Rightarrow> regex \<Rightarrow> string \<Rightarrow> match option" where
  "re_search ml r s = (case re_findall ml r s of [] \<Rightarrow> None | m # _ \<Rightarrow> Some m)"

definition re_match :: "bool \<Rightarrow> regex \<Rightarrow> string \<Rightarrow> match option" where
  "re_match ml r s = match_at ml r [] s False"

text \<open>\<open>m.group()\<close> of the result of \<open>re.search\<close>, which is None when nothing matches.\<close>

definition group0 :: "match option \<Rightarrow> error + string" where
  "group0 mo = (case mo of None \<Rightarrow> Inl AttributeError | Some m \<Rightarrow> Inr (whole m))"

text \<open>\<open>sub in s\<close> on strings.\<close>

fun contains :: "string \<Rightarrow> string \<Rightarrow> bool" where
  "contains [] sub = (sub = [])"
| "contains (x # xs) sub = (startswith (x # xs) sub \<or> contains xs sub)"

text \<open>\<open>str(n)\<close> for a natural number.\<close>

function str_nat :: "nat \<Rightarrow> string" where
  "str_nat n = (if n < 10 then [char_of (48 + n)] else str_nat (n div 10) @ [char_of (48 + n mod 10)])"
  by pat_completeness auto
termination
  by (relation "measure id") auto

declare str_nat.simps [simp del]

definition BS :: char where
  "BS = CHR 0x5C"

definition BT :: char where
  "BT = CHR 0x60"

definition DQ :: char where
  "DQ = CHR 0x22"

section \<open>The passes\<close>

subsection \<open>Code blocks\<close>

record cb_state =
  in_code_block :: bool
  code_block_start_line :: int
  current_code_block :: "string list"
  result_lines :: "string list"
  cb_logger :: StrippedContentLogger

definition fence :: string where
  "fence = [BT, BT, BT]"

definition cb_step :: "nat \<Rightarrow> string \<Rightarrow> cb_state \<Rightarrow> cb_state" where
  "cb_step i line st =
     (if startswith (strip line) fence then
        (if \<not> in_code_block st then
           st\<lparr>in_code_block := True, code_block_start_line := int i,
              current_code_block := [line],
              result_lines := result_lines st @ [''[CODE BLOCK]'']\<rparr>
         else
           st\<lparr>cb_logger := log (cb_logger st) ''code_blocks''
                             (join [NL] (current_code_block st @ [line])),
              in_code_block := False, current_code_block := []\<rparr>)
      else if in_code_block st then
        st\<lparr>current_code_block := current_code_block st @ [line]\<rparr>
      else st\<lparr>result_lines := result_lines st @ [line]\<rparr>)"

fun cb_loop :: "nat \<Rightarrow> string list \<Rightarrow> cb_state \<Rightarrow> cb_state" where
  "cb_loop i [] st = st"
| "cb_loop i (line # lines) st = cb_loop (Suc i) lines (cb_step i line st)"

definition unclosed_warning :: "int \<Rightarrow> string" where
  "unclosed_warning n = ''Warning: Unclosed code block starting at line '' @ str_nat (nat n)"

text \<open>The result: the text, the logger and what was printed to stderr.\<close>

definition safe_remove_code_blocks ::
    "string \<Rightarrow> StrippedContentLogger \<Rightarrow> string \<times> StrippedContentLogger \<times> string list" where
  "safe_remove_code_blocks text logger =
     (let st = cb_loop 0 (split NL text)
                 \<lparr>in_code_block = False, code_block_start_line = - 1,
                    current_code_block = [], result_lines = [], cb_logger = logger\<rparr>
      in if in_code_block st then
           (join [NL] (result_lines st),
            (if current_code_block st \<noteq> []
             then log (cb_logger st) ''code_blocks_unclosed'' (join [NL] (current_code_block st))
             else cb_logger st),
            [unclosed_warning (code_block_start_line st + 1)])
         else (join [NL] (result_lines st), cb_logger st, []))"

text \<open>
  A loop over the lines that appends zero or more lines to its result for each line
  and threads the logger.
\<close>

fun for_lines ::
    "(string \<Rightarrow> StrippedContentLogger \<Rightarrow> string list \<times> StrippedContentLogger) \<Rightarrow>
     string list \<Rightarrow> StrippedContentLogger \<Rightarrow> string list \<times> StrippedContentLogger" where
  "for_lines f [] logger = ([], logger)"
| "for_lines f (line # lines) logger =
     (case f line logger of (out, logger1) \<Rightarrow>
        (case for_lines f lines logger1 of (outs, logger2) \<Rightarrow> (out @ outs, logger2)))"

subsection \<open>Inline code and hash headers\<close>

text \<open>Pattern \<^verbatim>\<open>`([^`\n]+)`\<close>.\<close>

definition re_inline_code :: regex where
  "re_inline_code = seq [Ch BT, Grp 1 (plus (NCls [C BT, C NL])), Ch BT]"

definition step2 :: "string \<Rightarrow> StrippedContentLogger \<Rightarrow> string \<times> StrippedContentLogger" where
  "step2 text logger =
     (let matches = re_findall False re_inline_code text;
          logger1 = log_all logger ''inline_code'' (map (\<lambda>m. [BT] @ group m 1 @ [BT]) matches)
      in (re_sub False re_inline_code (\<lambda>m. group m 1) text, logger1))"

text \<open>Patterns \<^verbatim>\<open>^(#{1,6}\s+.*)$\<close> and \<^verbatim>\<open>^#{1,6}\s+\<close>, both with MULTILINE.\<close>

definition re_hash_header :: regex where
  "re_hash_header = seq [Bol, Grp 1 (seq [upto (Ch CHR ''#'') 1 6, plus (Cls [WS]), star Dot]), Eol]"

definition re_hash_marker :: regex where
  "re_hash_marker = seq [Bol, upto (Ch CHR ''#'') 1 6, plus (Cls [WS])]"

definition step3a :: "string \<Rightarrow> StrippedContentLogger \<Rightarrow> string \<times> StrippedContentLogger" where
  "step3a text logger =
     (let matches = re_findall True re_hash_header text;
          logger1 = log_all logger ''hash_headers'' (map (\<lambda>m. group m 1) matches)
      in (re_sub True re_hash_marker (\<lambda>m. []) text, logger1))"

subsection \<open>Underlined headers\<close>

text \<open>Patterns \<^verbatim>\<open>^=+\s*$\<close> and \<^verbatim>\<open>^-+\s*$\<close>, tried with \<open>re.match\<close> on the next line.\<close>

definition re_eq_line :: regex where
  "re_eq_line = seq [Bol, plus (Ch CHR ''=''), star (Cls [WS]), Eol]"

definition re_dash_line :: regex where
  "re_dash_line = seq [Bol, plus (Ch CHR ''-''), star (Cls [WS]), Eol]"

text \<open>
  The loop over \<open>enumerate(lines)\<close>: the list is the lines from index \<open>i\<close> on, so
  \<open>lines[i + 1]\<close> is the second element and \<open>i < len(lines) - 1\<close> says that there is
  one.
\<close>

fun underline_loop ::
    "string list \<Rightarrow> bool \<Rightarrow> string list \<Rightarrow> StrippedContentLogger \<Rightarrow>
     string list \<times> StrippedContentLogger" where
  "underline_loop [] skip_next processed_lines logger = (processed_lines, logger)"
| "underline_loop [line] skip_next processed_lines logger =
     (if skip_next then
        underline_loop [] False processed_lines (log logger ''underline_headers'' line)
      else underline_loop [] False (processed_lines @ [line]) logger)"
| "underline_loop (line # next_line # lines) skip_next processed_lines logger =
     (if skip_next then
        underline_loop (next_line # lines) False processed_lines
          (log logger ''underline_headers'' line)
      else if re_match False re_eq_line next_line \<noteq> None
              \<or> re_match False re_dash_line next_line \<noteq> None
      then underline_loop (next_line # lines) True (processed_lines @ [line]) logger
      else underline_loop (next_line # lines) False (processed_lines @ [line]) logger)"

definition step3b :: "string \<Rightarrow> StrippedContentLogger \<Rightarrow> string \<times> StrippedContentLogger" where
  "step3b text logger =
     (case underline_loop (split NL text) False [] logger of
        (processed_lines, logger1) \<Rightarrow> (join [NL] processed_lines, logger1))"

subsection \<open>Emphasis\<close>

text \<open>
  Patterns \<^verbatim>\<open>\*\*\*([^*\n]{1,125}?)\*\*\*\<close>, \<^verbatim>\<open>\*\*([^*\n]{1,125}?)\*\*\<close>,
  \<^verbatim>\<open>__([^_\n]{1,125}?)__\<close>, \<^verbatim>\<open>(?<!\*)\*([^*\n]{1,125}?)\*(?!\*)\<close> and
  \<^verbatim>\<open>(?<!_)_([^_\n]{1,125}?)_(?!_)\<close>.
\<close>

definition re_bold_italic :: regex where
  "re_bold_italic =
     seq [lit ''***'', Grp 1 (upto_lazy (NCls [C CHR ''*'', C NL]) 1 125), lit ''***'']"

definition re_bold_asterisks :: regex where
  "re_bold_asterisks =
     seq [lit ''**'', Grp 1 (upto_lazy (NCls [C CHR ''*'', C NL]) 1 125), lit ''**'']"

definition re_bold_underscores :: regex where
  "re_bold_underscores =
     seq [lit ''__'', Grp 1 (upto_lazy (NCls [C CHR ''_'', C NL]) 1 125), lit ''__'']"

definition re_italic_asterisks :: regex where
  "re_italic_asterisks =
     seq [NotBehind [C CHR ''*''], Ch CHR ''*'',
          Grp 1 (upto_lazy (NCls [C CHR ''*'', C NL]) 1 125),
          Ch CHR ''*'', NotAhead [C CHR ''*'']]"

definition re_italic_underscores :: regex where
  "re_italic_underscores =
     seq [NotBehind [C CHR ''_''], Ch CHR ''_'',
          Grp 1 (upto_lazy (NCls [C CHR ''_'', C NL]) 1 125),
          Ch CHR ''_'', NotAhead [C CHR ''_'']]"

text \<open>One kind of emphasis on one line: log every match between its markers, keep group 1.\<close>

definition strip_span ::
    "regex \<Rightarrow> string \<Rightarrow> string \<Rightarrow> string \<Rightarrow> StrippedContentLogger \<Rightarrow>
     string \<times> StrippedContentLogger" where
  "strip_span r name marker line logger =
     (let matches = re_findall False r line;
          logger1 = log_all logger name (map (\<lambda>m. marker @ group m 1 @ marker) matches)
      in (re_sub False r (\<lambda>m. group m 1) line, logger1))"

definition emphasis_line ::
    "string \<Rightarrow> StrippedContentLogger \<Rightarrow> string list \<times> StrippedContentLogger" where
  "emphasis_line line logger =
     (case strip_span re_bold_italic ''bold_italic'' ''***'' line logger of (l1, g1) \<Rightarrow>
      case strip_span re_bold_asterisks ''bold_asterisks'' ''**'' l1 g1 of (l2, g2) \<Rightarrow>
      case strip_span re_bold_underscores ''bold_underscores'' ''__'' l2 g2 of (l3, g3) \<Rightarrow>
      case strip_span re_italic_asterisks ''italic_asterisks'' ''*'' l3 g3 of (l4, g4) \<Rightarrow>
      case strip_span re_italic_underscores ''italic_underscores'' ''_'' l4 g4 of (l5, g5) \<Rightarrow>
        ([l5], g5))"

definition safe_remove_emphasis ::
    "string \<Rightarrow> StrippedContentLogger \<Rightarrow> string \<times> StrippedContentLogger" where
  "safe_remove_emphasis text logger =
     (case for_lines emphasis_line (split NL text) logger of
        (out_lines, logger1) \<Rightarrow> (join [NL] out_lines, logger1))"

subsection \<open>Reference links\<close>

text \<open>
  Patterns \<^verbatim>\<open>^(\[([^\]]+)\]:\s*[^\n]*)$\<close> and \<^verbatim>\<open>^\[([^\]]+)\]:\s*[^\n]*$\<close> with
  MULTILINE, and \<^verbatim>\<open>\[([^\]]+)\]\[[^\]]*\]\<close>.
\<close>

definition re_link_def_body :: "nat \<Rightarrow> regex" where
  "re_link_def_body k =
     seq [Ch CHR ''['', Grp k (plus (NCls [C CHR '']''])), Ch CHR '']'', Ch CHR '':'',
          star (Cls [WS]), star (NCls [C NL])]"

definition re_link_def_find :: regex where
  "re_link_def_find = seq [Bol, Grp 1 (re_link_def_body 2), Eol]"

definition re_link_def_sub :: regex where
  "re_link_def_sub = seq [Bol, re_link_def_body 1, Eol]"

definition re_reference_link :: regex where
  "re_reference_link =
     seq [Ch CHR ''['', Grp 1 (plus (NCls [C CHR '']''])), Ch CHR '']'',
          Ch CHR ''['', star (NCls [C CHR '']'']), Ch CHR '']'']"

definition step5 :: "string \<Rightarrow> StrippedContentLogger \<Rightarrow> string \<times> StrippedContentLogger" where
  "step5 text logger =
     (let matches = re_findall True re_link_def_find text;
          logger1 = log_all logger ''reference_link_definitions'' (map (\<lambda>m. group m 1) matches);
          text1 = re_sub True re_link_def_sub (\<lambda>m. []) text;
          matches1 = re_findall False re_reference_link text1;
          logger2 = log_all logger1 ''reference_links''
                      (map (\<lambda>m. ''['' @ group m 1 @ ''][]'') matches1)
      in (re_sub False re_reference_link (\<lambda>m. group m 1) text1, logger2))"

subsection \<open>Inline images and links\<close>

text \<open>
  Patterns \<^verbatim>\<open>!\[([^\]\n]{0,125})\]\([^)\n]{1,125}\)\<close> and
  \<^verbatim>\<open>\[([^\]\n]{1,125})\]\([^)\n]{1,125}\)\<close>; the logging loop searches the same
  patterns written without the group. The first argument says whether the label is a
  group.
\<close>

definition re_label :: "bool \<Rightarrow> nat \<Rightarrow> regex" where
  "re_label grp lo =
     (let r = upto (NCls [C CHR '']'', C NL]) lo 125 in if grp then Grp 1 r else r)"

definition re_target :: regex where
  "re_target = seq [Ch CHR ''('', upto (NCls [C CHR '')'', C NL]) 1 125, Ch CHR '')'']"

definition re_image :: "bool \<Rightarrow> regex" where
  "re_image grp = seq [Ch CHR ''!'', Ch CHR ''['', re_label grp 0, Ch CHR '']'', re_target]"

definition re_link :: "bool \<Rightarrow> regex" where
  "re_link grp = seq [Ch CHR ''['', re_label grp 1, Ch CHR '']'', re_target]"

text \<open>
  \<^verbatim>\<open>for match in matches: full_match = re.search(r, line).group(); logger.log(name, full_match)\<close>:
  every round logs the first match of the line, and \<open>group\<close> raises when the search
  finds nothing.
\<close>

fun log_search ::
    "regex \<Rightarrow> string \<Rightarrow> string \<Rightarrow> match list \<Rightarrow> StrippedContentLogger \<Rightarrow>
     error + StrippedContentLogger" where
  "log_search r name line [] logger = Inr logger"
| "log_search r name line (m # matches) logger =
     (case group0 (re_search False r line) of
        Inl e \<Rightarrow> Inl e
      | Inr full_match \<Rightarrow> log_search r name line matches (log logger name full_match))"

definition links_line ::
    "string \<Rightarrow> StrippedContentLogger \<Rightarrow> error + string \<times> StrippedContentLogger" where
  "links_line line logger =
     (case log_search (re_image False) ''images'' line (re_findall False (re_image True) line) logger of
        Inl e \<Rightarrow> Inl e
      | Inr logger1 \<Rightarrow>
          (let line1 = re_sub False (re_image True) (\<lambda>m. group m 1) line in
           case log_search (re_link False) ''links'' line1
                  (re_findall False (re_link True) line1) logger1 of
             Inl e \<Rightarrow> Inl e
           | Inr logger2 \<Rightarrow> Inr (re_sub False (re_link True) (\<lambda>m. group m 1) line1, logger2)))"

fun links_loop ::
    "string list \<Rightarrow> string list \<Rightarrow> StrippedContentLogger \<Rightarrow>
     error + string list \<times> StrippedContentLogger" where
  "links_loop [] processed_lines logger = Inr (processed_lines, logger)"
| "links_loop (line # lines) processed_lines logger =
     (case links_line line logger of
        Inl e \<Rightarrow> Inl e
      | Inr (line1, logger1) \<Rightarrow> links_loop lines (processed_lines @ [line1]) logger1)"

definition step6 :: "string \<Rightarrow> StrippedContentLogger \<Rightarrow> error + string \<times> StrippedContentLogger" where
  "step6 text logger =
     (case links_loop (split NL text) [] logger of
        Inl e \<Rightarrow> Inl e
      | Inr (processed_lines, logger1) \<Rightarrow> Inr (join [NL] processed_lines, logger1))"

subsection \<open>Task lists and lists\<close>

text \<open>
  Patterns \<^verbatim>\<open>^(\s*[-*+]\s+\[([ xX])\]\s*(.+))$\<close> and
  \<^verbatim>\<open>^\s*[-*+]\s+\[([ xX])\]\s*(.+)$\<close>, \<^verbatim>\<open>^(\s*[-*+]\s+)(.+)\<close> and
  \<^verbatim>\<open>^\s*[-*+]\s+(.+)\<close>, \<^verbatim>\<open>^(\s*\d+\.\s+)(.+)\<close> and \<^verbatim>\<open>^\s*\d+\.\s+(.+)\<close>, all
  with MULTILINE.
\<close>

definition re_bullet :: regex where
  "re_bullet = seq [star (Cls [WS]), Cls [C CHR ''-'', C CHR ''*'', C CHR ''+''], plus (Cls [WS])]"

definition re_task_body :: "nat \<Rightarrow> nat \<Rightarrow> regex" where
  "re_task_body k1 k2 =
     seq [re_bullet, Ch CHR ''['', Grp k1 (Cls [C CHR '' '', C CHR ''x'', C CHR ''X'']), Ch CHR '']'',
          star (Cls [WS]), Grp k2 (plus Dot)]"

definition re_task_find :: regex where
  "re_task_find = seq [Bol, Grp 1 (re_task_body 2 3), Eol]"

definition re_task_sub :: regex where
  "re_task_sub = seq [Bol, re_task_body 1 2, Eol]"

definition step7 :: "string \<Rightarrow> StrippedContentLogger \<Rightarrow> string \<times> StrippedContentLogger" where
  "step7 text logger =
     (let matches = re_findall True re_task_find text;
          logger1 = log_all logger ''task_lists'' (map (\<lambda>m. group m 1) matches)
      in (re_sub True re_task_sub (\<lambda>m. group m 2) text, logger1))"

definition re_unordered_find :: regex where
  "re_unordered_find = seq [Bol, Grp 1 re_bullet, Grp 2 (plus Dot)]"

definition re_unordered_sub :: regex where
  "re_unordered_sub = seq [Bol, re_bullet, Grp 1 (plus Dot)]"

definition re_number :: regex where
  "re_number = seq [star (Cls [WS]), plus (Cls [DG]), Ch CHR ''.'', plus (Cls [WS])]"

definition re_ordered_find :: regex where
  "re_ordered_find = seq [Bol, Grp 1 re_number, Grp 2 (plus Dot)]"

definition re_ordered_sub :: regex where
  "re_ordered_sub = seq [Bol, re_number, Grp 1 (plus Dot)]"

definition step8 :: "string \<Rightarrow> StrippedContentLogger \<Rightarrow> string \<times> StrippedContentLogger" where
  "step8 text logger =
     (let matches = re_findall True re_unordered_find text;
          logger1 = log_all logger ''unordered_lists'' (map (\<lambda>m. group m 1) matches);
          text1 = re_sub True re_unordered_sub (\<lambda>m. group m 1) text;
          matches1 = re_findall True re_ordered_find text1;
          logger2 = log_all logger1 ''ordered_lists'' (map (\<lambda>m. group m 1) matches1)
      in (re_sub True re_ordered_sub (\<lambda>m. group m 1) text1, logger2))"

subsection \<open>Escaped characters\<close>

text \<open>Pattern \<^verbatim>\<open>\\([\\`*_{}\[\]()#+\-.!])\<close>.\<close>

definition escapable :: string where
  "escapable = [BS, BT] @ ''*_{}[]()#+-.!''"

definition re_escape :: regex where
  "re_escape = seq [Ch BS, Grp 1 (Cls (map C escapable))]"

text \<open>
  The string of \<open>replace_escape\<close>, the raw literal \<^verbatim>\<open>r"`*_{}[]()#+-.!\\"\<close>, which ends
  with two backslashes.
\<close>

definition unescaped :: string where
  "unescaped = [BT] @ ''*_{}[]()#+-.!'' @ [BS, BS]"

definition replace_escape :: "match \<Rightarrow> string" where
  "replace_escape m =
     (let char = group m 1 in if contains unescaped char then char else [BS] @ char)"

text \<open>One round of the loop: \<open>re.sub\<close> calls \<open>replace_escape\<close>, which logs, on every match in turn.\<close>

definition escape_round :: "string \<Rightarrow> StrippedContentLogger \<Rightarrow> string \<times> StrippedContentLogger" where
  "escape_round text logger =
     (re_sub False re_escape replace_escape text,
      log_all logger ''escaped_characters''
        (map (\<lambda>m. [BS] @ group m 1) (re_findall False re_escape text)))"

definition step9 :: "string \<Rightarrow> StrippedContentLogger \<Rightarrow> string \<times> StrippedContentLogger" where
  "step9 text logger =
     (case escape_round text logger of (text1, logger1) \<Rightarrow> escape_round text1 logger1)"

subsection \<open>Blockquotes, horizontal rules, tables, HTML tags\<close>

text \<open>Patterns \<^verbatim>\<open>>\<close> and \<^verbatim>\<open>^\s*(?:>\s*)+\<close>.\<close>

definition re_gt :: regex where
  "re_gt = Ch CHR ''>''"

definition re_blockquote :: regex where
  "re_blockquote = seq [Bol, star (Cls [WS]), plus (seq [Ch CHR ''>'', star (Cls [WS])])]"

definition blockquote_line ::
    "string \<Rightarrow> StrippedContentLogger \<Rightarrow> string list \<times> StrippedContentLogger" where
  "blockquote_line line logger =
     (let original_line = line;
          gt_count = length (re_findall False re_gt line);
          processed_line = re_sub False re_blockquote (\<lambda>m. replicate (gt_count + 1) CHR '' '') line
      in if original_line \<noteq> processed_line then
           (let removed_part =
                  slice_to original_line
                    (int (length original_line) - int (length (lstrip processed_line)))
            in ([processed_line], log logger ''blockquotes'' removed_part))
         else ([processed_line], logger))"

definition step10 :: "string \<Rightarrow> StrippedContentLogger \<Rightarrow> string \<times> StrippedContentLogger" where
  "step10 text logger =
     (case for_lines blockquote_line (split NL text) logger of
        (res, logger1) \<Rightarrow> (join [NL] res, logger1))"

text \<open>Pattern \<^verbatim>\<open>^\s*[-*_](\s*[-*_])*\s*$\<close>, tried with \<open>re.match\<close>.\<close>

definition rule_symbol :: regex where
  "rule_symbol = Cls [C CHR ''-'', C CHR ''*'', C CHR ''_'']"

definition re_horizontal_rule :: regex where
  "re_horizontal_rule =
     seq [Bol, star (Cls [WS]), rule_symbol, star (Grp 1 (seq [star (Cls [WS]), rule_symbol])),
          star (Cls [WS]), Eol]"

definition rule_line ::
    "string \<Rightarrow> StrippedContentLogger \<Rightarrow> string list \<times> StrippedContentLogger" where
  "rule_line line logger =
     (if re_match False re_horizontal_rule line \<noteq> None
      then ([], log logger ''horizontal_rules'' line)
      else ([line], logger))"

definition step11 :: "string \<Rightarrow> StrippedContentLogger \<Rightarrow> string \<times> StrippedContentLogger" where
  "step11 text logger =
     (case for_lines rule_line (split NL text) logger of
        (res, logger1) \<Rightarrow> (join [NL] res, logger1))"

text \<open>Patterns \<^verbatim>\<open>^[\s\-:|\|]*$\<close> and \<^verbatim>\<open>^:?-+:?$\<close>, tried with \<open>re.match\<close>.\<close>

definition re_table_chars :: regex where
  "re_table_chars = seq [Bol, star (Cls [WS, C CHR ''-'', C CHR '':'', C CHR ''|'', C CHR ''|'']), Eol]"

definition re_table_part :: regex where
  "re_table_part =
     seq [Bol, upto (Ch CHR '':'') 0 1, plus (Ch CHR ''-''), upto (Ch CHR '':'') 0 1, Eol]"

definition is_table_separator :: "string \<Rightarrow> bool" where
  "is_table_separator line =
     (let stripped_line = strip line in
      if startswith stripped_line ''|'' \<and> endswith stripped_line ''|'' then
        (let content_between_pipes = butlast (tl stripped_line) in
         if re_match False re_table_chars content_between_pipes \<noteq> None
            \<and> CHR ''-'' \<in> set content_between_pipes then
           (let parts = map strip (filter (\<lambda>part. strip part \<noteq> [])
                                     (split CHR ''|'' content_between_pipes))
            in 2 \<le> length parts
               \<and> (\<forall>part \<in> set parts. re_match False re_table_part (strip part) \<noteq> None))
         else False)
      else False)"

definition table_line ::
    "string \<Rightarrow> StrippedContentLogger \<Rightarrow> string list \<times> StrippedContentLogger" where
  "table_line line logger =
     (if is_table_separator line then ([], log logger ''table_separators'' line)
      else ([line], logger))"

definition conservative_remove_tables ::
    "string \<Rightarrow> StrippedContentLogger \<Rightarrow> string \<times> StrippedContentLogger" where
  "conservative_remove_tables text logger =
     (case for_lines table_line (split NL text) logger of
        (res, logger1) \<Rightarrow> (join [NL] res, logger1))"

text \<open>Pattern \<^verbatim>\<open><[^>\n]{0,125}>\<close>.\<close>

definition re_html_tag :: regex where
  "re_html_tag = seq [Ch CHR ''<'', upto (NCls [C CHR ''>'', C NL]) 0 125, Ch CHR ''>'']"

definition html_line ::
    "string \<Rightarrow> StrippedContentLogger \<Rightarrow> string list \<times> StrippedContentLogger" where
  "html_line line logger =
     (let matches = re_findall False re_html_tag line;
          logger1 = log_all logger ''html_tags'' (map whole matches)
      in ([re_sub False re_html_tag (\<lambda>m. []) line], logger1))"

definition step13 :: "string \<Rightarrow> StrippedContentLogger \<Rightarrow> string \<times> StrippedContentLogger" where
  "step13 text logger =
     (case for_lines html_line (split NL text) logger of
        (res, logger1) \<Rightarrow> (join [NL] res, logger1))"

subsection \<open>Strikethrough, footnotes, whitespace\<close>

text \<open>Pattern \<^verbatim>\<open>~~([^~\n]{1,125}?)~~\<close>.\<close>

definition re_strikethrough :: regex where
  "re_strikethrough =
     seq [lit ''~~'', Grp 1 (upto_lazy (NCls [C CHR ''~'', C NL]) 1 125), lit ''~~'']"

definition step14 :: "string \<Rightarrow> StrippedContentLogger \<Rightarrow> string \<times> StrippedContentLogger" where
  "step14 text logger = strip_span re_strikethrough ''strikethrough'' ''~~'' text logger"

text \<open>
  Patterns \<^verbatim>\<open>\[\^([^\]\n]{1,125})\](?!:)\<close>, and \<^verbatim>\<open>^(\[\^([^\]]+)\]:\s*(.+))$\<close> and
  \<^verbatim>\<open>^\[\^([^\]]+)\]:\s*(.+)$\<close> with MULTILINE.
\<close>

definition re_footnote_ref :: regex where
  "re_footnote_ref =
     seq [Ch CHR ''['', Ch CHR ''^'', Grp 1 (upto (NCls [C CHR '']'', C NL]) 1 125), Ch CHR '']'',
          NotAhead [C CHR '':'']]"

definition re_footnote_def_body :: "nat \<Rightarrow> nat \<Rightarrow> regex" where
  "re_footnote_def_body k1 k2 =
     seq [Ch CHR ''['', Ch CHR ''^'', Grp k1 (plus (NCls [C CHR '']''])), Ch CHR '']'', Ch CHR '':'',
          star (Cls [WS]), Grp k2 (plus Dot)]"

definition re_footnote_def_find :: regex where
  "re_footnote_def_find = seq [Bol, Grp 1 (re_footnote_def_body 2 3), Eol]"

definition re_footnote_def_sub :: regex where
  "re_footnote_def_sub = seq [Bol, re_footnote_def_body 1 2, Eol]"

definition step15 :: "string \<Rightarrow> StrippedContentLogger \<Rightarrow> string \<times> StrippedContentLogger" where
  "step15 text logger =
     (let matches = re_findall False re_footnote_ref text;
          logger1 = log_all logger ''footnote_references''
                      (map (\<lambda>m. ''[^'' @ group m 1 @ '']'') matches);
          text1 = re_sub False re_footnote_ref (\<lambda>m. []) text;
          matches1 = re_findall True re_footnote_def_find text1;
          logger2 = log_all logger1 ''footnote_definitions'' (map (\<lambda>m. group m 1) matches1)
      in (re_sub True re_footnote_def_sub (\<lambda>m. []) text1, logger2))"

text \<open>Pattern \<^verbatim>\<open>\n{3,}\<close>.\<close>

definition re_newlines :: regex where
  "re_newlines = Rep (Ch NL) 3 None True"

definition step16 :: "string \<Rightarrow> StrippedContentLogger \<Rightarrow> string \<times> StrippedContentLogger" where
  "step16 text logger =
     (let excessive_newlines = re_findall False re_newlines text;
          logger1 = (if excessive_newlines \<noteq> []
                     then log logger ''excessive_whitespace''
                            (''Found '' @ str_nat (length excessive_newlines)
                             @ '' instances of 3+ consecutive newlines'')
                     else logger);
          text1 = re_sub False re_newlines (\<lambda>m. [NL, NL]) text
      in (join [NL] (map strip (split NL text1)), logger1))"

section \<open>The pipeline\<close>

text \<open>
  What \<open>print\<close> writes to stdout, one value for each line: the line that opens the
  report, the report of a step (its name, the two lengths and their difference) and the
  line that closes the report (the final length and the total reduction).
\<close>

datatype debug_msg =
    Starting nat
  | Step string nat nat int
  | Final nat int

definition debug_step :: "bool \<Rightarrow> string \<Rightarrow> string \<Rightarrow> string \<Rightarrow> debug_msg list" where
  "debug_step debug step_name before_text after_text =
     (if debug then
        (let before_len = length before_text;
             after_len = length after_text;
             diff = int before_len - int after_len
         in [Step step_name before_len after_len diff])
      else [])"

text \<open>The unwrapping of an input that looks like a JSON member.\<close>

definition unwrap_input :: "string \<Rightarrow> string" where
  "unwrap_input markdown_content =
     (if startswith markdown_content [DQ] \<and> CHR '':'' \<in> set markdown_content then
        (case index1 (split1 CHR '':'' markdown_content) of
           Inl e \<Rightarrow> markdown_content
         | Inr c \<Rightarrow>
             replace [BS, DQ] [DQ] (replace [BS, CHR ''n''] [NL] (strip_char DQ (strip c))))
      else markdown_content)"

text \<open>
  The result of a call: the returned text, the logger as the call leaves it, and what
  was printed to stdout and to stderr.
\<close>

record conversion =
  returned :: string
  ledger :: StrippedContentLogger
  stdout :: "debug_msg list"
  stderr :: "string list"

definition convert_markdown_to_text ::
    "string \<Rightarrow> bool \<Rightarrow> StrippedContentLogger option \<Rightarrow> error + conversion" where
  "convert_markdown_to_text markdown_content debug logger_arg =
     (let logger = (case logger_arg of
                      None \<Rightarrow> \<lparr>enabled = False, sections = []\<rparr>
                    | Some l \<Rightarrow> l);
          text0 = unwrap_input markdown_content;
          original_length = length text0;
          out0 = (if debug then [Starting original_length] else []);
          (text1, logger1, err) = safe_remove_code_blocks text0 logger;
          out1 = out0 @ debug_step debug ''Step 1 - Code blocks'' text0 text1;
          (text2, logger2) = step2 text1 logger1;
          out2 = out1 @ debug_step debug ''Step 2 - Inline code'' text1 text2;
          (text3a, logger3a) = step3a text2 logger2;
          out3a = out2 @ debug_step debug ''Step 3a - Hash headers'' text2 text3a;
          (text3b, logger3b) = step3b text3a logger3a;
          out3b = out3a @ debug_step debug ''Step 3b - Underline headers'' text3a text3b;
          (text4, logger4) = safe_remove_emphasis text3b logger3b;
          out4 = out3b @ debug_step debug ''Step 4 - All emphasis'' text3b text4;
          (text5, logger5) = step5 text4 logger4;
          out5 = out4 @ debug_step debug ''Step 5 - Reference links'' text4 text5
      in case step6 text5 logger5 of
           Inl e \<Rightarrow> Inl e
         | Inr (text6, logger6) \<Rightarrow>
            (let out6 = out5 @ debug_step debug ''Step 6 - Links and images'' text5 text6;
                 (text7, logger7) = step7 text6 logger6;
                 out7 = out6 @ debug_step debug ''Step 7 - Task lists'' text6 text7;
                 (text8, logger8) = step8 text7 logger7;
                 out8 = out7 @ debug_step debug ''Step 8 - Regular lists'' text7 text8;
                 (text9, logger9) = step9 text8 logger8;
                 out9 = out8 @ debug_step debug ''Step 9 - Escaped characters'' text8 text9;
                 (text10, logger10) = step10 text9 logger9;
                 out10 = out9 @ debug_step debug ''Step 10 - Blockquotes'' text9 text10;
                 (text11, logger11) = step11 text10 logger10;
                 out11 = out10 @ debug_step debug ''Step 11 - Horizontal rules'' text10 text11;
                 (text12, logger12) = conservative_remove_tables text11 logger11;
                 out12 = out11 @ debug_step debug ''Step 12 - Tables (conservative)'' text11 text12;
                 (text13, logger13) = step13 text12 logger12;
                 out13 = out12 @ debug_step debug ''Step 13 - HTML tags'' text12 text13;
                 (text14, logger14) = step14 text13 logger13;
                 out14 = out13 @ debug_step debug ''Step 14 - Strikethrough'' text13 text14;
                 (text15, logger15) = step15 text14 logger14;
                 out15 = out14 @ debug_step debug ''Step 15 - Footnotes'' text14 text15;
                 (text16, logger16) = step16 text15 logger15;
                 out16 = out15 @ debug_step debug ''Step 16 - Clean whitespace'' text15 text16;
                 final_length = length (strip text16);
                 out17 = out16 @ (if debug
                                  then [Final final_length (int original_length - int final_length)]
                                  else [])
             in Inr \<lparr>returned = strip text16, ledger = logger16, stdout = out17, stderr = err\<rparr>))"

section \<open>A table separator under a data row\<close>

definition table_input :: string where
  "table_input = ''| A | B |'' @ [NL] @ ''|---|---|''"

definition empty_ledger :: StrippedContentLogger where
  "empty_ledger = \<lparr>enabled = True, sections = []\<rparr>"

lemma table_conversion_quiet:
  "convert_markdown_to_text table_input False (Some empty_ledger) =
     Inr \<lparr>returned = ''| A | B |'',
          ledger = \<lparr>enabled = True, sections = [(''table_separators'', [''|---|---|''])]\<rparr>,
          stdout = [], stderr = []\<rparr>"
  by code_simp

lemma table_conversion_debug:
  "map_sum id (\<lambda>c. (returned c, ledger c, stderr c))
     (convert_markdown_to_text table_input True (Some empty_ledger)) =
     Inr (''| A | B |'',
          \<lparr>enabled = True, sections = [(''table_separators'', [''|---|---|''])]\<rparr>, [])"
  by code_simp

text \<open>
  C3, as stated: the two lines \<open>| A | B |\<close> and \<open>|---|---|\<close> convert to \<open>A | B\<close>.
  They do not: the data row keeps its outer pipes.
\<close>

theorem table_row_loses_pipes_counterexample:
  "\<not> (\<exists>c. convert_markdown_to_text table_input False (Some empty_ledger) = Inr c
          \<and> returned c = ''A | B'')"
  by (simp add: table_conversion_quiet)

text \<open>
  C3, amended: with or without the debug report, and with a ledger that records, the
  two lines convert to \<open>| A | B |\<close>, the data row as it was written, with its pipes;
  the separator line is not in the text and is the one entry of the category
  \<open>table_separators\<close>.
\<close>

theorem table_separator_only:
  "\<exists>c. convert_markdown_to_text table_input debug (Some empty_ledger) = Inr c
       \<and> returned c = ''| A | B |''
       \<and> section_of (ledger c) ''table_separators'' = [''|---|---|'']"
proof (cases debug)
  case True
  with table_conversion_debug show ?thesis
    by (cases "convert_markdown_to_text table_input True (Some empty_ledger)")
       (auto simp: section_of_def)
next
  case False
  then show ?thesis by (simp add: table_conversion_quiet section_of_def)
qed

theorem table_separator_only_witness:
  "\<exists>c. convert_markdown_to_text (''| A | B |'' @ [NL] @ ''|---|---|'') True
          (Some \<lparr>enabled = True, sections = []\<rparr>) = Inr c
       \<and> returned c = ''| A | B |''
       \<and> section_of (ledger c) ''table_separators'' = [''|---|---|'']"
  using table_separator_only [of True] by (simp add: table_input_def empty_ledger_def)

section \<open>The conversion always returns\<close>

text \<open>
  Capturing groups do not change what a pattern matches: the pattern without its groups
  finds the same matches, so a search for it succeeds wherever \<open>re.findall\<close> found
  a match of the pattern with groups.
\<close>

fun ungroup :: "regex \<Rightarrow> regex" where
  "ungroup (Seq a b) = Seq (ungroup a) (ungroup b)"
| "ungroup (Rep r lo hi greedy) = Rep (ungroup r) lo hi greedy"
| "ungroup (Grp k r) = ungroup r"
| "ungroup r = r"

definition erase :: "mstate \<Rightarrow> mstate" where
  "erase st = st\<lparr>groups := []\<rparr>"

lemma erase_simps [simp]:
  "rest (erase st) = rest st" "behind (erase st) = behind st" "groups (erase st) = []"
  "erase (erase st) = erase st"
  by (simp_all add: erase_def)

lemma step1_erase: "map erase (step1 ok st) = step1 ok (erase st)"
  by (auto simp: step1_def erase_def split: list.splits)

lemma rep_erase:
  assumes f: "\<And>st. map erase (f st) = f' (erase st)"
  shows "map erase (rep f lo hi greedy st) = rep f' lo hi greedy (erase st)"
proof (induction "length (rest st)" arbitrary: lo hi st rule: less_induct)
  case less
  let ?P = "\<lambda>st'. length (rest st') < length (rest st)"
  have flt: "filter ?P (f' (erase st)) = map erase (filter ?P (f st))"
    by (simp add: f [symmetric] filter_map comp_def)
  have more: "map erase (concat (map (rep f lo' hi' greedy) (filter ?P (f st))))
      = concat (map (rep f' lo' hi' greedy) (filter ?P (f' (erase st))))" for lo' hi'
    unfolding flt map_concat map_map comp_def
    by (rule arg_cong [where f = concat], rule map_cong [OF refl]) (simp add: less)
  have L: "rep f lo hi greedy st =
      (let stop = (if lo = 0 then [st] else []);
           more = (if hi = Some 0 then []
                   else concat (map (rep f (lo - 1) (map_option (\<lambda>h. h - 1) hi) greedy) (filter ?P (f st))))
       in if greedy then more @ stop else stop @ more)"
    by (rule rep.simps)
  have R: "rep f' lo hi greedy (erase st) =
      (let stop = (if lo = 0 then [erase st] else []);
           more = (if hi = Some 0 then []
                   else concat (map (rep f' (lo - 1) (map_option (\<lambda>h. h - 1) hi) greedy)
                                  (filter ?P (f' (erase st)))))
       in if greedy then more @ stop else stop @ more)"
    by (subst rep.simps) simp
  show ?case unfolding L R using more
    by (cases greedy) (simp_all add: Let_def del: map_concat)
qed

lemma ms_erase: "map erase (ms ml r st) = ms ml (ungroup r) (erase st)"
proof (induction r arbitrary: st)
  case (Seq a b)
  have "map erase (concat (map (ms ml b) (ms ml a st)))
        = concat (map (\<lambda>s. ms ml (ungroup b) (erase s)) (ms ml a st))"
    by (simp add: map_concat comp_def Seq.IH(2))
  also have "\<dots> = concat (map (ms ml (ungroup b)) (map erase (ms ml a st)))"
    by (simp add: comp_def)
  finally show ?case by (simp add: Seq.IH(1))
next
  case (Rep r lo hi greedy)
  show ?case by (simp add: rep_erase [where f' = "\<lambda>s. ms ml (ungroup r) s"] Rep.IH)
next
  case (Grp k r)
  have "map erase (ms ml (Grp k r) st) = map erase (ms ml r st)"
    by (simp add: comp_def erase_def)
  then show ?case by (simp add: Grp.IH)
qed (auto simp: step1_erase erase_def)


lemma match_at_ungroup:
  "map_option whole (match_at ml (ungroup r) bef s adv) = map_option whole (match_at ml r bef s adv)"
proof -
  let ?st = "\<lparr>behind = bef, rest = s, groups = []\<rparr>"
  let ?P = "\<lambda>st'. \<not> adv \<or> length (rest st') < length s"
  have e: "erase ?st = ?st" by (simp add: erase_def)
  have "ms ml (ungroup r) ?st = map erase (ms ml r ?st)"
    using ms_erase [of ml r ?st] unfolding e by simp
  then have "filter ?P (ms ml (ungroup r) ?st) = map erase (filter ?P (ms ml r ?st))"
    by (simp add: filter_map comp_def)
  then show ?thesis
    by (cases "filter ?P (ms ml r ?st)") (simp_all add: match_at_def)
qed

definition shape :: "piece \<Rightarrow> char + string" where
  "shape p = (case p of Txt c \<Rightarrow> Inl c | M m \<Rightarrow> Inr (whole m))"

lemma shape_simps [simp]: "shape (Txt c) = Inl c" "shape (M m) = Inr (whole m)"
  by (simp_all add: shape_def)

lemma scan_ungroup:
  "map shape (scan ml (ungroup r) bef s adv) = map shape (scan ml r bef s adv)"
proof (induction ml r bef s adv rule: scan.induct)
  case (1 ml r bef s adv)
  note mu = match_at_ungroup [of ml r bef s adv]
  note L = scan.simps [of ml r bef s adv] and R = scan.simps [of ml "ungroup r" bef s adv]
  show ?case
  proof (cases "match_at ml r bef s adv")
    case None
    with mu have N: "match_at ml (ungroup r) bef s adv = None" by simp
    show ?thesis
      by (subst R, subst L) (use None N 1 in \<open>auto split: list.splits\<close>)
  next
    case (Some m)
    with mu obtain m' where S: "match_at ml (ungroup r) bef s adv = Some m'" and w: "whole m' = whole m"
      by (cases "match_at ml (ungroup r) bef s adv") auto
    show ?thesis
      by (subst R, subst L) (use Some S w 1 in simp)
  qed
qed

lemma findall_shape:
  "map whole (re_findall ml r s)
   = concat (map (case_sum (\<lambda>c. []) (\<lambda>w. [w])) (map shape (pieces ml r s)))"
proof -
  have "map whole (concat (map (\<lambda>p. case p of Txt c \<Rightarrow> [] | M m \<Rightarrow> [m]) ps))
        = concat (map (case_sum (\<lambda>c. []) (\<lambda>w. [w])) (map shape ps))" for ps
    by (induction ps) (auto simp: shape_def split: piece.splits)
  then show ?thesis by (simp only: re_findall_def)
qed

lemma findall_ungroup:
  "map whole (re_findall ml (ungroup r) s) = map whole (re_findall ml r s)"
  by (simp only: findall_shape pieces_def scan_ungroup)

lemma search_ungroup:
  "re_findall ml r s \<noteq> [] \<Longrightarrow> \<exists>m. re_search ml (ungroup r) s = Some m"
  using findall_ungroup [of ml r s]
  by (cases "re_findall ml (ungroup r) s") (auto simp: re_search_def)

lemma log_search_ok:
  "matches = [] \<or> (\<exists>m. re_search False r line = Some m) \<Longrightarrow>
   \<exists>logger'. log_search r name line matches logger = Inr logger'"
  by (induction matches arbitrary: logger) (auto simp: group0_def)

lemma ungroup_image: "ungroup (re_image True) = re_image False"
  by (simp add: re_image_def re_label_def re_target_def seq_def upto_def)

lemma ungroup_link: "ungroup (re_link True) = re_link False"
  by (simp add: re_link_def re_label_def re_target_def seq_def upto_def)

lemma links_line_ok: "\<exists>r. links_line line logger = Inr r"
proof -
  obtain l1 where l1: "log_search (re_image False) ''images'' line
                         (re_findall False (re_image True) line) logger = Inr l1"
    using log_search_ok [of "re_findall False (re_image True) line" "re_image False" line]
          search_ungroup [of False "re_image True" line]
    by (auto simp: ungroup_image)
  let ?line1 = "re_sub False (re_image True) (\<lambda>m. group m 1) line"
  obtain l2 where l2: "log_search (re_link False) ''links'' ?line1
                         (re_findall False (re_link True) ?line1) l1 = Inr l2"
    using log_search_ok [of "re_findall False (re_link True) ?line1" "re_link False" ?line1]
          search_ungroup [of False "re_link True" ?line1]
    by (auto simp: ungroup_link)
  show ?thesis unfolding links_line_def using l1 l2 by (simp add: Let_def)
qed

lemma links_loop_ok: "\<exists>r. links_loop lines acc logger = Inr r"
proof (induction lines arbitrary: acc logger)
  case Nil
  show ?case by simp
next
  case (Cons line lines)
  obtain l g where "links_line line logger = Inr (l, g)"
    using links_line_ok [of line logger] by (cases "links_line line logger") auto
  with Cons show ?case by simp
qed

lemma step6_ok: "\<exists>r. step6 text logger = Inr r"
  using links_loop_ok [of "split NL text" "[]" logger]
  by (auto simp: step6_def)

lemma step6_not_Inl [simp]: "step6 t logger \<noteq> Inl e"
  using step6_ok [of t logger] by auto

lemma convert_returns: "\<exists>c. convert_markdown_to_text markdown_content debug logger = Inr c"
  unfolding convert_markdown_to_text_def Let_def
  by (auto split: prod.splits sum.splits)

text \<open>
  C1: for every input text, debug flag and logger argument (absent, disabled or
  enabled, with any content), \<open>convert_markdown_to_text\<close> returns a text and raises
  nothing. Every function of the model is total (each loop has its termination proof), so
  the call terminates; the two places where the source could raise are branches of the
  model: \<open>[1]\<close> after the split of the JSON prefix, caught by the \<open>except\<close> that falls
  back to the raw text, and \<open>.group()\<close> on the result of \<open>re.search\<close> in the links
  pass, which always finds a match when \<open>re.findall\<close> on the same pattern did.
\<close>

theorem convert_never_raises:
  "\<exists>c. convert_markdown_to_text markdown_content debug logger = Inr c"
  by (rule convert_returns)

theorem convert_never_raises_witness:
  "\<exists>c. convert_markdown_to_text ([DQ] @ ''k'' @ [DQ] @ '': '' @ [DQ] @ ''![a](b) [c](d'' @ [BT, BT, BT])
          True None = Inr c"
  by (rule convert_never_raises)


section \<open>The text does not depend on the logger\<close>

text \<open>
  Every pass computes its text from the text alone: the logger is only written. The text
  part of a pass is named by running the pass with a logger that records nothing.
\<close>

definition off :: StrippedContentLogger where
  "off = \<lparr>enabled = False, sections = []\<rparr>"

definition text_of :: "(string \<Rightarrow> StrippedContentLogger \<Rightarrow> string \<times> StrippedContentLogger) \<Rightarrow> string \<Rightarrow> string" where
  "text_of f t = fst (f t off)"

lemma for_lines_fst:
  assumes "\<And>line g g'. fst (f line g) = fst (f line g')"
  shows "fst (for_lines f ls g) = fst (for_lines f ls g')"
proof (induction ls arbitrary: g g')
  case Nil
  show ?case by simp
next
  case (Cons l ls)
  obtain o1 g1 where a: "f l g = (o1, g1)" by (cases "f l g")
  obtain o2 g2 where b: "f l g' = (o2, g2)" by (cases "f l g'")
  have "o1 = o2" using assms [of l g g'] a b by simp
  moreover obtain r1 h1 where c: "for_lines f ls g1 = (r1, h1)" by (cases "for_lines f ls g1")
  moreover obtain r2 h2 where d: "for_lines f ls g2 = (r2, h2)" by (cases "for_lines f ls g2")
  moreover have "r1 = r2" using Cons [of g1 g2] c d by simp
  ultimately show ?case using a b by simp
qed

lemma step2_txt: "fst (step2 t g) = text_of step2 t"
  by (simp add: step2_def text_of_def Let_def)

lemma step3a_txt: "fst (step3a t g) = text_of step3a t"
  by (simp add: step3a_def text_of_def Let_def)

lemma underline_loop_fst:
  "fst (underline_loop ls skip acc g) = fst (underline_loop ls skip acc g')"
proof (induction ls skip acc g arbitrary: g' rule: underline_loop.induct)
  case (1 skip acc g)
  show ?case by simp
next
  case (2 line skip acc g)
  show ?case by simp
next
  case (3 line next_line lines skip acc g)
  show ?case
    using "3.IH"(1) [of "log g' ''underline_headers'' line"] "3.IH"(2) [of g'] "3.IH"(3) [of g']
    by simp
qed

lemma step3b_txt: "fst (step3b t g) = text_of step3b t"
  using underline_loop_fst [of "split NL t" False "[]" g off]
  by (auto simp: step3b_def text_of_def split: prod.splits)

lemma strip_span_fst: "fst (strip_span r n m l g) = fst (strip_span r n m l g')"
  by (simp add: strip_span_def Let_def)

lemma emphasis_line_fst: "fst (emphasis_line l g) = fst (emphasis_line l g')"
  by (simp add: emphasis_line_def strip_span_def Let_def)

lemma emphasis_txt: "fst (safe_remove_emphasis t g) = text_of safe_remove_emphasis t"
  using for_lines_fst [of emphasis_line "split NL t" g off, OF emphasis_line_fst]
  by (auto simp: safe_remove_emphasis_def text_of_def split: prod.splits)

lemma step5_txt: "fst (step5 t g) = text_of step5 t"
  by (simp add: step5_def text_of_def Let_def)

lemma step7_txt: "fst (step7 t g) = text_of step7 t"
  by (simp add: step7_def text_of_def Let_def)

lemma step8_txt: "fst (step8 t g) = text_of step8 t"
  by (simp add: step8_def text_of_def Let_def)

lemma step9_txt: "fst (step9 t g) = text_of step9 t"
  by (simp add: step9_def escape_round_def text_of_def Let_def)

lemma step10_txt: "fst (step10 t g) = text_of step10 t"
proof -
  have "fst (blockquote_line l a) = fst (blockquote_line l b)" for l a b
    by (simp add: blockquote_line_def Let_def)
  from for_lines_fst [of blockquote_line "split NL t" g off, OF this]
  show ?thesis by (auto simp: step10_def text_of_def split: prod.splits)
qed

lemma step11_txt: "fst (step11 t g) = text_of step11 t"
proof -
  have "fst (rule_line l a) = fst (rule_line l b)" for l a b
    by (simp add: rule_line_def)
  from for_lines_fst [of rule_line "split NL t" g off, OF this]
  show ?thesis by (auto simp: step11_def text_of_def split: prod.splits)
qed

lemma tables_txt: "fst (conservative_remove_tables t g) = text_of conservative_remove_tables t"
proof -
  have "fst (table_line l a) = fst (table_line l b)" for l a b
    by (simp add: table_line_def)
  from for_lines_fst [of table_line "split NL t" g off, OF this]
  show ?thesis by (auto simp: conservative_remove_tables_def text_of_def split: prod.splits)
qed

lemma step13_txt: "fst (step13 t g) = text_of step13 t"
proof -
  have "fst (html_line l a) = fst (html_line l b)" for l a b
    by (simp add: html_line_def Let_def)
  from for_lines_fst [of html_line "split NL t" g off, OF this]
  show ?thesis by (auto simp: step13_def text_of_def split: prod.splits)
qed

lemma step14_txt: "fst (step14 t g) = text_of step14 t"
  by (simp add: step14_def strip_span_def text_of_def Let_def)

lemma step15_txt: "fst (step15 t g) = text_of step15 t"
  by (simp add: step15_def text_of_def Let_def)

lemma step16_txt: "fst (step16 t g) = text_of step16 t"
  by (simp add: step16_def text_of_def Let_def)


definition cb_view :: "cb_state \<Rightarrow> bool \<times> int \<times> string list \<times> string list" where
  "cb_view st = (in_code_block st, code_block_start_line st, current_code_block st, result_lines st)"

lemma cb_step_view:
  "cb_view st = cb_view st' \<Longrightarrow> cb_view (cb_step i line st) = cb_view (cb_step i line st')"
  by (simp add: cb_view_def cb_step_def)

lemma cb_loop_view:
  "cb_view st = cb_view st' \<Longrightarrow> cb_view (cb_loop i ls st) = cb_view (cb_loop i ls st')"
proof (induction ls arbitrary: i st st')
  case Nil
  then show ?case by simp
next
  case (Cons l ls)
  from Cons.IH [OF cb_step_view [OF Cons.prems]] show ?case by simp
qed

definition code_text :: "string \<Rightarrow> string" where
  "code_text t = fst (safe_remove_code_blocks t off)"

definition code_err :: "string \<Rightarrow> string list" where
  "code_err t = snd (snd (safe_remove_code_blocks t off))"

lemma code_blocks_view:
  "fst (safe_remove_code_blocks t g) = code_text t
   \<and> snd (snd (safe_remove_code_blocks t g)) = code_err t"
proof -
  let ?init = "\<lambda>g. \<lparr>in_code_block = False, code_block_start_line = - 1,
                     current_code_block = [], result_lines = [], cb_logger = g\<rparr>"
  have "cb_view (cb_loop 0 (split NL t) (?init g)) = cb_view (cb_loop 0 (split NL t) (?init off))"
    by (rule cb_loop_view) (simp add: cb_view_def)
  then show ?thesis
    by (simp add: cb_view_def safe_remove_code_blocks_def code_text_def code_err_def Let_def)
qed

definition link_text :: "string \<Rightarrow> string" where
  "link_text line =
     re_sub False (re_link True) (\<lambda>m. group m 1)
       (re_sub False (re_image True) (\<lambda>m. group m 1) line)"

lemma links_line_text: "links_line line g = Inr (l, g') \<Longrightarrow> l = link_text line"
  by (auto simp: links_line_def link_text_def Let_def split: sum.splits)

lemma links_loop_text:
  "links_loop ls acc g = Inr (ps, g') \<Longrightarrow> ps = acc @ map link_text ls"
proof (induction ls arbitrary: acc g)
  case Nil
  then show ?case by simp
next
  case (Cons l ls)
  from Cons.prems obtain l1 g1 where a: "links_line l g = Inr (l1, g1)"
    and b: "links_loop ls (acc @ [l1]) g1 = Inr (ps, g')"
    by (auto split: sum.splits)
  from Cons.IH [OF b] links_line_text [OF a] show ?case by simp
qed

definition links_text :: "string \<Rightarrow> string" where
  "links_text t = join [NL] (map link_text (split NL t))"

lemma step6_text: "step6 t g = Inr (t', g') \<Longrightarrow> t' = links_text t"
  by (auto simp: step6_def links_text_def split: sum.splits dest: links_loop_text)

lemma text_ofD: "(\<And>g. fst (f t g) = text_of f t) \<Longrightarrow> f t g = (t', g') \<Longrightarrow> t' = text_of f t"
  by (metis fst_conv)

definition plain :: "string \<Rightarrow> string" where
  "plain x =
     strip (text_of step16 (text_of step15 (text_of step14 (text_of step13
       (text_of conservative_remove_tables (text_of step11 (text_of step10 (text_of step9
         (text_of step8 (text_of step7 (links_text (text_of step5
           (text_of safe_remove_emphasis (text_of step3b (text_of step3a (text_of step2
             (code_text (unwrap_input x))))))))))))))))))"

lemma convert_plain:
  assumes "convert_markdown_to_text x debug logger = Inr c"
  shows "returned c = plain x \<and> stderr c = code_err (unwrap_input x)"
proof -
  note D = text_ofD [OF step2_txt] text_ofD [OF step3a_txt] text_ofD [OF step3b_txt]
    text_ofD [OF emphasis_txt] text_ofD [OF step5_txt] text_ofD [OF step7_txt]
    text_ofD [OF step8_txt] text_ofD [OF step9_txt] text_ofD [OF step10_txt]
    text_ofD [OF step11_txt] text_ofD [OF tables_txt] text_ofD [OF step13_txt]
    text_ofD [OF step14_txt] text_ofD [OF step15_txt] text_ofD [OF step16_txt]
  have C: "safe_remove_code_blocks t g = (t', g', e) \<Longrightarrow> t' = code_text t \<and> e = code_err t"
    for t g t' g' e
    using code_blocks_view [of t g] by simp
  from assms show ?thesis
    unfolding convert_markdown_to_text_def Let_def plain_def
    by (auto split: prod.splits sum.splits dest!: D C step6_text)
qed


text \<open>
  C2: for every input, the text returned by \<open>convert_markdown_to_text\<close> is the same
  in any two runs, whatever the debug flag of each run and whatever its logger argument
  (absent, disabled or enabled, with any content): neither the logging nor the debug
  report changes the rewriting.
\<close>

theorem logging_does_not_alter_text:
  "map_sum id returned (convert_markdown_to_text x debug logger)
   = map_sum id returned (convert_markdown_to_text x debug' logger')"
proof -
  obtain c where c: "convert_markdown_to_text x debug logger = Inr c"
    using convert_returns by blast
  obtain c' where c': "convert_markdown_to_text x debug' logger' = Inr c'"
    using convert_returns by blast
  from convert_plain [OF c] convert_plain [OF c'] show ?thesis
    by (simp add: c c')
qed

theorem logging_does_not_alter_text_witness:
  "map_sum id returned
     (convert_markdown_to_text (''**a** '' @ [BT] @ ''b'' @ [BT]) True
        (Some \<lparr>enabled = True, sections = []\<rparr>))
   = map_sum id returned (convert_markdown_to_text (''**a** '' @ [BT] @ ''b'' @ [BT]) False None)"
  by (rule logging_does_not_alter_text)

end
